theory Spec2Isabelle
  imports Complex_Main "HOL-Library.Multiset"
begin

section \<open>Data model (models/Event.js)\<close>

text \<open>
  The Mongoose schemas of the repository, as records. An ObjectId is a natural number, a
  Date is its number of milliseconds since the epoch, a Number is a rational. Field names
  are the schema's; \<open>_id\<close>, and the names that two schemas share or that HOL already
  uses, carry a prefix.
\<close>

type_synonym oid = nat
type_synonym date = int

record session =
  s_id :: oid
  s_title :: string
  s_description :: "string option"
  startTime :: date
  endTime :: date
  speaker :: string
  room :: string
  s_tags :: "string list"

record participant =
  p_id :: oid
  userId :: string
  userName :: string
  userEmail :: string
  registeredAt :: date

record event =
  e_id :: oid
  title :: string
  description :: string
  startDate :: date
  endDate :: date
  location :: string
  capacity :: rat
  price :: rat
  e_image :: string
  organizerId :: string
  organizerName :: string
  organizerEmail :: string
  sessions :: "session list"
  participants :: "participant list"
  isPublic :: bool
  tags :: "string list"
  createdAt :: date
  updatedAt :: date

text \<open>
  Schema validation, run by \<open>save()\<close> on the whole document: the paths declared
  \<open>required: true\<close> must be present, and a required string must not be empty. Dates
  and numbers of a stored document are well-typed by construction of the records.
\<close>

definition validate_session :: "session \<Rightarrow> bool" where
  "validate_session s = (s_title s \<noteq> [])"

definition validate_participant :: "participant \<Rightarrow> bool" where
  "validate_participant p = (userId p \<noteq> [])"

definition validate :: "event \<Rightarrow> bool" where
  "validate e =
     (title e \<noteq> [] \<and> organizerId e \<noteq> [] \<and>
      list_all validate_session (sessions e) \<and>
      list_all validate_participant (participants e))"

section \<open>The collection\<close>

text \<open>
  The events collection is the list of its documents. \<open>findById\<close> and \<open>findOne\<close>
  return the first match; \<open>save\<close> runs the schema's \<open>pre('save')\<close> hook
  (\<open>updatedAt = Date.now()\<close>) and overwrites the stored document that has the same
  \<open>_id\<close>. The database keeps \<open>_id\<close> unique in the collection, which is the
  hypothesis \<open>distinct (map e_id store)\<close> where a statement needs it. Every handler
  runs behind the authentication middleware, so each takes the caller's identity.

  A route parameter or a body's \<open>_id\<close> is a string that the query casts to an ObjectId.
  When the cast fails (\<open>/api/events/abc\<close>) the query throws before any document is
  read and the handler's \<open>catch\<close> answers 500. \<open>deleteEvent\<close> takes the route
  parameter itself; the definitions of the other handlers start from the identifier that
  the cast gives.
\<close>

datatype route_id = NotObjectId | ObjectId oid

definition findById :: "event list \<Rightarrow> oid \<Rightarrow> event option" where
  "findById store i = find (\<lambda>e. e_id e = i) store"

definition findOne :: "(event \<Rightarrow> bool) \<Rightarrow> event list \<Rightarrow> event option" where
  "findOne q store = find q store"

fun save :: "date \<Rightarrow> event \<Rightarrow> event list \<Rightarrow> event list" where
  "save now d [] = []"
| "save now d (x # xs) =
     (if e_id x = e_id d then d\<lparr>updatedAt := now\<rparr> # xs else x # save now d xs)"

fun findByIdAndUpdate ::
  "oid \<Rightarrow> (event \<Rightarrow> event) \<Rightarrow> event list \<Rightarrow> event option \<times> event list" where
  "findByIdAndUpdate i f [] = (None, [])"
| "findByIdAndUpdate i f (x # xs) =
     (if e_id x = i then (Some (f x), f x # xs)
      else (case findByIdAndUpdate i f xs of (r, ys) \<Rightarrow> (r, x # ys)))"

fun findByIdAndDelete :: "oid \<Rightarrow> event list \<Rightarrow> event option \<times> event list" where
  "findByIdAndDelete i [] = (None, [])"
| "findByIdAndDelete i (x # xs) =
     (if e_id x = i then (Some x, xs)
      else (case findByIdAndDelete i xs of (r, ys) \<Rightarrow> (r, x # ys)))"

section \<open>Requests and responses (index.js)\<close>

text \<open>
  \<open>req.auth\<close>: the caller's \<open>userId\<close> and the optional \<open>user.name\<close> and
  \<open>user.email\<close>. The error responses of the handlers, one constructor for each pair of
  status code and message.
\<close>

record auth =
  auth_userId :: string
  auth_name :: "string option"
  auth_email :: "string option"

datatype error =
    EventNotFound
  | AlreadyJoined
  | EventFull
  | EventNotFoundOrNotAuthorized
  | NotAuthorized
  | SessionNotFoundOrNotAuthorized
  | SessionNotFound
  | ServerError

fun status :: "error \<Rightarrow> nat" where
  "status EventNotFound = 404"
| "status AlreadyJoined = 400"
| "status EventFull = 400"
| "status EventNotFoundOrNotAuthorized = 404"
| "status NotAuthorized = 403"
| "status SessionNotFoundOrNotAuthorized = 404"
| "status SessionNotFound = 404"
| "status ServerError = 500"

text \<open>\<open>v || d\<close> on an optional string: the default replaces undefined and the empty string.\<close>

definition or_default :: "string option \<Rightarrow> string \<Rightarrow> string" where
  "or_default v d = (case v of None \<Rightarrow> d | Some s \<Rightarrow> if s = [] then d else s)"

text \<open>
  The \<open>trim: true\<close> setter of the schema is \<open>String.prototype.trim\<close>: it strips, at
  both ends, the white space and the line terminators of ECMAScript. A string is the
  list of its UTF-8 bytes, so each of these code points is the list of its bytes: the
  six ASCII ones, U+00A0, U+1680, U+2000 to U+200A, U+2028, U+2029, U+202F, U+205F,
  U+3000 and U+FEFF.
\<close>

definition white_space :: "string list" where
  "white_space =
     [[CHR 0x09], [CHR 0x0A], [CHR 0x0B], [CHR 0x0C], [CHR 0x0D], [CHR 0x20],
      [CHR 0xC2, CHR 0xA0],
      [CHR 0xE1, CHR 0x9A, CHR 0x80],
      [CHR 0xE2, CHR 0x80, CHR 0x80], [CHR 0xE2, CHR 0x80, CHR 0x81],
      [CHR 0xE2, CHR 0x80, CHR 0x82], [CHR 0xE2, CHR 0x80, CHR 0x83],
      [CHR 0xE2, CHR 0x80, CHR 0x84], [CHR 0xE2, CHR 0x80, CHR 0x85],
      [CHR 0xE2, CHR 0x80, CHR 0x86], [CHR 0xE2, CHR 0x80, CHR 0x87],
      [CHR 0xE2, CHR 0x80, CHR 0x88], [CHR 0xE2, CHR 0x80, CHR 0x89],
      [CHR 0xE2, CHR 0x80, CHR 0x8A],
      [CHR 0xE2, CHR 0x80, CHR 0xA8], [CHR 0xE2, CHR 0x80, CHR 0xA9],
      [CHR 0xE2, CHR 0x80, CHR 0xAF],
      [CHR 0xE2, CHR 0x81, CHR 0x9F],
      [CHR 0xE3, CHR 0x80, CHR 0x80],
      [CHR 0xEF, CHR 0xBB, CHR 0xBF]]"

text \<open>
  \<open>space_at ws s\<close> is the number of bytes of the code point of \<open>ws\<close> that \<open>s\<close>
  starts with, 0 when it starts with none; \<open>strip\<close> removes such code points from
  the front until none is left.
\<close>

definition space_at :: "string list \<Rightarrow> string \<Rightarrow> nat" where
  "space_at ws s =
     (case find (\<lambda>w. take (length w) s = w) ws of None \<Rightarrow> 0 | Some w \<Rightarrow> length w)"

function strip :: "string list \<Rightarrow> string \<Rightarrow> string" where
  "strip ws s =
     (if space_at ws s = 0 \<or> s = [] then s else strip ws (drop (space_at ws s) s))"
  by pat_completeness auto
termination
  by (relation "measure (\<lambda>(ws, s). length s)") auto

declare strip.simps [simp del]

definition trim :: "string \<Rightarrow> string" where
  "trim s = rev (strip (map rev white_space) (rev (strip white_space s)))"

subsection \<open>GET /api/events/public\<close>

definition listPublicEvents :: "event list \<Rightarrow> string \<Rightarrow> event list" where
  "listPublicEvents store caller =
     take 20 (sort_key (\<lambda>e. - createdAt e)
       (filter (\<lambda>e. isPublic e \<and> organizerId e \<noteq> caller) store))"

subsection \<open>POST /api/events/:id/join\<close>

definition joinEvent ::
  "date \<Rightarrow> oid \<Rightarrow> event list \<Rightarrow> oid \<Rightarrow> auth \<Rightarrow> (error + nat) \<times> event list" where
  "joinEvent now newId store i a =
     (case findById store i of
        None \<Rightarrow> (Inl EventNotFound, store)
      | Some ev \<Rightarrow>
          if list_ex (\<lambda>p. userId p = auth_userId a) (participants ev)
          then (Inl AlreadyJoined, store)
          else if of_nat (length (participants ev)) \<ge> capacity ev
          then (Inl EventFull, store)
          else
            (let ev' = ev\<lparr>participants := participants ev @
                   [\<lparr>p_id = newId, userId = auth_userId a,
                     userName = or_default (auth_name a) ''Anonymous'',
                     userEmail = or_default (auth_email a) [],
                     registeredAt = now\<rparr>]\<rparr>
             in if validate ev'
                then (Inr (length (participants ev')), save now ev' store)
                else (Inl ServerError, store)))"

subsection \<open>POST /api/events/:id/leave\<close>

definition leaveEvent ::
  "date \<Rightarrow> event list \<Rightarrow> oid \<Rightarrow> auth \<Rightarrow> (error + nat) \<times> event list" where
  "leaveEvent now store i a =
     (case findById store i of
        None \<Rightarrow> (Inl EventNotFound, store)
      | Some ev \<Rightarrow>
          (let ev' = ev\<lparr>participants :=
                 filter (\<lambda>p. userId p \<noteq> auth_userId a) (participants ev)\<rparr>
           in if validate ev'
              then (Inr (length (participants ev')), save now ev' store)
              else (Inl ServerError, store)))"

subsection \<open>PUT /api/events/:id\<close>

text \<open>
  The request body, cast by the schema: a field is \<open>None\<close> when the body does not have
  it, and the fields the schema does not declare are dropped. The body's own
  \<open>updatedAt\<close> is overridden by \<open>updatedAt: Date.now()\<close>, so the record has no
  field for it. The update validators (\<open>runValidators: true\<close>) check the paths
  that the update sets. The database does not let an update change the \<open>_id\<close> of a
  document: a body whose \<open>_id\<close> is not the identifier of the event makes the update
  throw, and the \<open>catch\<close> answers 500.
\<close>

record event_patch =
  pt_id :: "route_id option"
  pt_title :: "string option"
  pt_description :: "string option"
  pt_startDate :: "date option"
  pt_endDate :: "date option"
  pt_location :: "string option"
  pt_capacity :: "rat option"
  pt_price :: "rat option"
  pt_image :: "string option"
  pt_organizerId :: "string option"
  pt_organizerName :: "string option"
  pt_organizerEmail :: "string option"
  pt_sessions :: "session list option"
  pt_participants :: "participant list option"
  pt_isPublic :: "bool option"
  pt_tags :: "string list option"
  pt_createdAt :: "date option"

definition patched :: "'a option \<Rightarrow> 'a \<Rightarrow> 'a" where
  "patched v old = (case v of None \<Rightarrow> old | Some x \<Rightarrow> x)"

definition validate_patch :: "event_patch \<Rightarrow> bool" where
  "validate_patch p =
     ((case pt_title p of None \<Rightarrow> True | Some t \<Rightarrow> trim t \<noteq> []) \<and>
      (case pt_organizerId p of None \<Rightarrow> True | Some ou \<Rightarrow> ou \<noteq> []) \<and>
      (case pt_sessions p of None \<Rightarrow> True | Some ss \<Rightarrow> list_all validate_session ss) \<and>
      (case pt_participants p of None \<Rightarrow> True | Some ps \<Rightarrow> list_all validate_participant ps))"

definition id_unchanged :: "oid \<Rightarrow> event_patch \<Rightarrow> bool" where
  "id_unchanged i p = (case pt_id p of None \<Rightarrow> True | Some r \<Rightarrow> r = ObjectId i)"

definition apply_patch :: "date \<Rightarrow> event_patch \<Rightarrow> event \<Rightarrow> event" where
  "apply_patch now p e =
     e\<lparr>title := patched (map_option trim (pt_title p)) (title e),
       description := patched (map_option trim (pt_description p)) (description e),
       startDate := patched (pt_startDate p) (startDate e),
       endDate := patched (pt_endDate p) (endDate e),
       location := patched (pt_location p) (location e),
       capacity := patched (pt_capacity p) (capacity e),
       price := patched (pt_price p) (price e),
       e_image := patched (pt_image p) (e_image e),
       organizerId := patched (pt_organizerId p) (organizerId e),
       organizerName := patched (pt_organizerName p) (organizerName e),
       organizerEmail := patched (pt_organizerEmail p) (organizerEmail e),
       sessions := patched (pt_sessions p) (sessions e),
       participants := patched (pt_participants p) (participants e),
       isPublic := patched (pt_isPublic p) (isPublic e),
       tags := patched (pt_tags p) (tags e),
       createdAt := patched (pt_createdAt p) (createdAt e),
       updatedAt := now\<rparr>"

definition updateEvent ::
  "date \<Rightarrow> event list \<Rightarrow> oid \<Rightarrow> string \<Rightarrow> event_patch \<Rightarrow>
   (error + event option) \<times> event list" where
  "updateEvent now store i caller p =
     (case findOne (\<lambda>e. e_id e = i \<and> organizerId e = caller) store of
        None \<Rightarrow> (Inl EventNotFoundOrNotAuthorized, store)
      | Some ev \<Rightarrow>
          if validate_patch p \<and> id_unchanged i p
          then (case findByIdAndUpdate i (apply_patch now p) store of
                  (updatedEvent, store') \<Rightarrow> (Inr updatedEvent, store'))
          else (Inl ServerError, store))"

subsection \<open>DELETE /api/events/:id\<close>

definition deleteEvent ::
  "event list \<Rightarrow> route_id \<Rightarrow> string \<Rightarrow> (error + unit) \<times> event list" where
  "deleteEvent store rid caller =
     (case rid of
        NotObjectId \<Rightarrow> (Inl ServerError, store)
      | ObjectId i \<Rightarrow>
          (case findByIdAndDelete i store of
             (None, store') \<Rightarrow> (Inl EventNotFound, store)
           | (Some ev, store') \<Rightarrow> (Inr (), store')))"

subsection \<open>POST /api/events/:eventId/sessions\<close>

text \<open>
  The fields the handler reads from the body. \<open>sf_startTime\<close> and \<open>sf_endTime\<close> are
  the values of \<open>new Date(startTime)\<close> and \<open>new Date(endTime)\<close>: \<open>None\<close> is the
  invalid date that a missing or unparseable input gives. The response is the plain
  object \<open>newSession\<close>, so it has the type of the body.
\<close>

record session_fields =
  sf_title :: "string option"
  sf_description :: "string option"
  sf_startTime :: "date option"
  sf_endTime :: "date option"
  sf_speaker :: "string option"
  sf_room :: "string option"
  sf_tags :: "string list option"

definition newSession :: "session_fields \<Rightarrow> session_fields" where
  "newSession body = body\<lparr>sf_tags := Some (patched (sf_tags body) [])\<rparr>"

text \<open>
  Pushing the object on \<open>event.sessions\<close> casts it to a subdocument: a fresh \<open>_id\<close>,
  the schema's defaults for the undefined fields. There is no subdocument (the later
  \<open>save\<close> rejects) when a required path is undefined or a date is invalid.
\<close>

definition push_session :: "oid \<Rightarrow> session_fields \<Rightarrow> session option" where
  "push_session newId obj =
     (case (sf_title obj, sf_startTime obj, sf_endTime obj) of
        (Some t, Some st, Some en) \<Rightarrow>
          Some \<lparr>s_id = newId, s_title = t, s_description = sf_description obj,
                startTime = st, endTime = en,
                speaker = patched (sf_speaker obj) ''TBD'',
                room = patched (sf_room obj) ''TBD'',
                s_tags = patched (sf_tags obj) []\<rparr>
      | _ \<Rightarrow> None)"

definition addSession ::
  "date \<Rightarrow> oid \<Rightarrow> event list \<Rightarrow> oid \<Rightarrow> string \<Rightarrow> session_fields \<Rightarrow>
   (error + session_fields) \<times> event list" where
  "addSession now newId store eventId caller body =
     (case findById store eventId of
        None \<Rightarrow> (Inl EventNotFound, store)
      | Some ev \<Rightarrow>
          if organizerId ev \<noteq> caller then (Inl NotAuthorized, store)
          else
            (case push_session newId (newSession body) of
               None \<Rightarrow> (Inl ServerError, store)
             | Some s \<Rightarrow>
                 (let ev' = ev\<lparr>sessions := sessions ev @ [s]\<rparr>
                  in if validate ev'
                     then (Inr (newSession body), save now ev' store)
                     else (Inl ServerError, store))))"

subsection \<open>PUT /api/sessions/:id\<close>

text \<open>
  \<open>updateData\<close>: the body without \<open>eventId\<close>, restricted to the paths of the session
  schema. A field is \<open>None\<close> when the body does not have it; a date field is
  \<open>Some None\<close> when the body's value cannot be cast to a date. \<open>Object.assign\<close> sets
  every field that \<open>updateData\<close> has, \<open>_id\<close> included: for a subdocument
  \<open>_id\<close> is a path like the others, and the schema declares nothing immutable.
\<close>

record session_patch =
  sp_id :: "oid option"
  sp_title :: "string option"
  sp_description :: "string option"
  sp_startTime :: "date option option"
  sp_endTime :: "date option option"
  sp_speaker :: "string option"
  sp_room :: "string option"
  sp_tags :: "string list option"

definition has_session :: "oid \<Rightarrow> event \<Rightarrow> bool" where
  "has_session sid e = list_ex (\<lambda>s. s_id s = sid) (sessions e)"

definition sessions_id :: "event \<Rightarrow> oid \<Rightarrow> session option" where
  "sessions_id e sid = find (\<lambda>s. s_id s = sid) (sessions e)"

definition assign :: "session \<Rightarrow> session_patch \<Rightarrow> session option" where
  "assign s u =
     (if sp_startTime u = Some None \<or> sp_endTime u = Some None then None
      else Some
        (s\<lparr>s_id := patched (sp_id u) (s_id s),
           s_title := patched (sp_title u) (s_title s),
           s_description := (case sp_description u of None \<Rightarrow> s_description s | Some d \<Rightarrow> Some d),
           startTime := (case sp_startTime u of Some (Some t) \<Rightarrow> t | _ \<Rightarrow> startTime s),
           endTime := (case sp_endTime u of Some (Some t) \<Rightarrow> t | _ \<Rightarrow> endTime s),
           speaker := patched (sp_speaker u) (speaker s),
           room := patched (sp_room u) (room s),
           s_tags := patched (sp_tags u) (s_tags s)\<rparr>))"

text \<open>The subdocument is mutated in place: the first session with the identifier.\<close>

fun set_session :: "oid \<Rightarrow> session \<Rightarrow> session list \<Rightarrow> session list" where
  "set_session sid s' [] = []"
| "set_session sid s' (x # xs) =
     (if s_id x = sid then s' # xs else x # set_session sid s' xs)"

definition updateSession ::
  "date \<Rightarrow> event list \<Rightarrow> oid \<Rightarrow> string \<Rightarrow> session_patch \<Rightarrow>
   (error + session) \<times> event list" where
  "updateSession now store sid caller updateData =
     (case findOne (\<lambda>e. has_session sid e \<and> organizerId e = caller) store of
        None \<Rightarrow> (Inl SessionNotFoundOrNotAuthorized, store)
      | Some ev \<Rightarrow>
          (case sessions_id ev sid of
             None \<Rightarrow> (Inl SessionNotFound, store)
           | Some s \<Rightarrow>
               (case assign s updateData of
                  None \<Rightarrow> (Inl ServerError, store)
                | Some s' \<Rightarrow>
                    (let ev' = ev\<lparr>sessions := set_session sid s' (sessions ev)\<rparr>
                     in if validate ev'
                        then (Inr s', save now ev' store)
                        else (Inl ServerError, store)))))"

subsection \<open>DELETE /api/sessions/:id\<close>

definition removeSession ::
  "date \<Rightarrow> event list \<Rightarrow> oid \<Rightarrow> string \<Rightarrow> (error + unit) \<times> event list" where
  "removeSession now store sid caller =
     (case findOne (\<lambda>e. has_session sid e \<and> organizerId e = caller) store of
        None \<Rightarrow> (Inl SessionNotFoundOrNotAuthorized, store)
      | Some ev \<Rightarrow>
          (let ev' = ev\<lparr>sessions := filter (\<lambda>s. s_id s \<noteq> sid) (sessions ev)\<rparr>
           in if validate ev'
              then (Inr (), save now ev' store)
              else (Inl ServerError, store)))"

section \<open>Sequences of calls and example data\<close>

text \<open>
  A sequence of join requests against one event, each with the fresh \<open>_id\<close> of its
  participant and the caller's identity, run one after the other on the collection; the
  responses are collected in order.
\<close>

fun joinAll ::
  "date \<Rightarrow> event list \<Rightarrow> oid \<Rightarrow> (oid \<times> auth) list \<Rightarrow> (error + nat) list \<times> event list" where
  "joinAll now store i [] = ([], store)"
| "joinAll now store i ((newId, a) # reqs) =
     (case joinEvent now newId store i a of
        (r, store') \<Rightarrow>
          (case joinAll now store' i reqs of (rs, store'') \<Rightarrow> (r # rs, store'')))"

text \<open>
  An event as \<open>POST /api/events\<close> stores it when the body gives only the title and
  the two dates: the capacity is the default 0.
\<close>

definition ex_event :: event where
  "ex_event =
     \<lparr>e_id = 1, title = ''Launch'', description = [], startDate = 1000, endDate = 2000,
      location = ''TBD'', capacity = 0, price = 0, e_image = [], organizerId = ''org1'',
      organizerName = ''Anonymous'', organizerEmail = [], sessions = [], participants = [],
      isPublic = False, tags = [], createdAt = 500, updatedAt = 500\<rparr>"

definition ex_session :: session where
  "ex_session =
     \<lparr>s_id = 7, s_title = ''Keynote'', s_description = None, startTime = 1000,
      endTime = 2000, speaker = ''TBD'', room = ''TBD'', s_tags = []\<rparr>"

definition ex_participant :: participant where
  "ex_participant =
     \<lparr>p_id = 3, userId = ''userA'', userName = ''Anonymous'', userEmail = [],
      registeredAt = 550\<rparr>"

definition ex_user :: "string \<Rightarrow> auth" where
  "ex_user u = \<lparr>auth_userId = u, auth_name = None, auth_email = None\<rparr>"

definition ex_no_patch :: event_patch where
  "ex_no_patch =
     \<lparr>pt_id = None, pt_title = None, pt_description = None, pt_startDate = None, pt_endDate = None,
      pt_location = None, pt_capacity = None, pt_price = None, pt_image = None,
      pt_organizerId = None, pt_organizerName = None, pt_organizerEmail = None,
      pt_sessions = None, pt_participants = None, pt_isPublic = None, pt_tags = None,
      pt_createdAt = None\<rparr>"

definition ex_no_update :: session_patch where
  "ex_no_update =
     \<lparr>sp_id = None, sp_title = None, sp_description = None, sp_startTime = None,
      sp_endTime = None, sp_speaker = None, sp_room = None, sp_tags = None\<rparr>"

definition ex_body :: session_fields where
  "ex_body =
     \<lparr>sf_title = Some ''Workshop'', sf_description = None, sf_startTime = Some 2000,
      sf_endTime = Some 1000, sf_speaker = None, sf_room = None, sf_tags = None\<rparr>"

definition ex_public :: "nat \<Rightarrow> event" where
  "ex_public k = ex_event\<lparr>e_id := k, isPublic := True, createdAt := int k\<rparr>"

section \<open>Lookups and writes on the collection\<close>

lemma find_e_id: "find (\<lambda>e. e_id e = i) store = Some e \<Longrightarrow> e_id e = i"
  by (induction store) (simp_all split: if_splits)

lemma findById_in_set: "findById store i = Some ev \<Longrightarrow> ev \<in> set store"
  unfolding findById_def by (induction store) (simp_all split: if_splits)

lemma findByIdAndDelete_None:
  "findById store i = None \<Longrightarrow> findByIdAndDelete i store = (None, store)"
  unfolding findById_def by (induction store) (simp_all split: if_splits)

lemma findByIdAndDelete_Some:
  "findById store i = Some e \<Longrightarrow> findByIdAndDelete i store = (Some e, remove1 e store)"
proof (induction store)
  case Nil
  then show ?case by (simp add: findById_def)
next
  case (Cons a store)
  show ?case
  proof (cases "e_id a = i")
    case True
    with Cons.prems show ?thesis by (simp add: findById_def)
  next
    case False
    with Cons.prems have f: "findById store i = Some e" by (simp add: findById_def)
    then have "e_id e = i" unfolding findById_def by (rule find_e_id)
    with False have "e \<noteq> a" by blast
    with False Cons.IH[OF f] show ?thesis by simp
  qed
qed

lemma findById_None_iff: "findById store i = None \<longleftrightarrow> i \<notin> e_id ` set store"
  unfolding findById_def by (induction store) simp_all

lemma findById_remove1:
  "distinct (map e_id store) \<Longrightarrow> findById store i = Some e \<Longrightarrow> findById (remove1 e store) i = None"
proof (induction store)
  case Nil
  then show ?case by (simp add: findById_def)
next
  case (Cons a store)
  show ?case
  proof (cases "e_id a = i")
    case True
    with Cons.prems have "e = a" and "i \<notin> e_id ` set store" by (simp_all add: findById_def)
    then show ?thesis by (simp add: findById_None_iff)
  next
    case False
    with Cons.prems have f: "findById store i = Some e" by (simp add: findById_def)
    then have "e_id e = i" unfolding findById_def by (rule find_e_id)
    with False have "e \<noteq> a" by blast
    with False Cons.IH[OF _ f] Cons.prems(1) show ?thesis by (simp add: findById_def)
  qed
qed

lemma deleteEvent_None:
  "findById store i = None \<Longrightarrow>
   deleteEvent store (ObjectId i) caller = (Inl EventNotFound, store)"
  by (simp add: deleteEvent_def findByIdAndDelete_None)

lemma deleteEvent_Some:
  "findById store i = Some ev \<Longrightarrow>
   deleteEvent store (ObjectId i) caller = (Inr (), remove1 ev store)"
  by (simp add: deleteEvent_def findByIdAndDelete_Some)

lemma length_remove1_found:
  "findById store i = Some ev \<Longrightarrow> length (remove1 ev store) + 1 = length store"
proof -
  assume "findById store i = Some ev"
  then have m: "ev \<in> set store" by (rule findById_in_set)
  then have "length store > 0" by (cases store) simp_all
  with m show ?thesis by (simp add: length_remove1)
qed

lemma findById_Some_id: "findById store i = Some e \<Longrightarrow> e_id e = i"
  unfolding findById_def by (rule find_e_id)

lemma findById_save_same:
  "findById store (e_id d) = Some e \<Longrightarrow>
   findById (save now d store) (e_id d) = Some (d\<lparr>updatedAt := now\<rparr>)"
  unfolding findById_def by (induction store) (simp_all split: if_splits)


lemma find_Some_holds: "find q xs = Some x \<Longrightarrow> q x"
  by (induction xs) (simp_all split: if_splits)








lemma sorted_take_drop_le:
  "sorted (map f xs) \<Longrightarrow> x \<in> set (take n xs) \<Longrightarrow> y \<in> set (drop n xs) \<Longrightarrow> f x \<le> f y"
proof -
  assume s: "sorted (map f xs)" and x: "x \<in> set (take n xs)" and y: "y \<in> set (drop n xs)"
  have "map f xs = map f (take n xs) @ map f (drop n xs)"
    by (simp flip: map_append)
  with s have "sorted (map f (take n xs) @ map f (drop n xs))" by simp
  then show ?thesis using x y by (auto simp: sorted_append)
qed

section \<open>Stored events stay valid\<close>

text \<open>
  Every write path validates what it writes, so the documents of the collection satisfy
  the schema: \<open>validate\<close> is an invariant of the handlers. The statements below about
  a stored event take it as a hypothesis.
\<close>

lemma validate_updatedAt [simp]: "validate (d\<lparr>updatedAt := now\<rparr>) = validate d"
  by (simp add: validate_def)

lemma list_all_validate_save:
  "list_all validate store \<Longrightarrow> validate d \<Longrightarrow> list_all validate (save now d store)"
  by (induction store) simp_all

lemma list_all_validate_update:
  "list_all validate store \<Longrightarrow> (\<And>x. validate x \<Longrightarrow> validate (g x)) \<Longrightarrow>
   list_all validate (snd (findByIdAndUpdate i g store))"
  by (induction store) (simp_all add: split_beta)

lemma list_all_validate_delete:
  "list_all validate store \<Longrightarrow> list_all validate (snd (findByIdAndDelete i store))"
  by (induction store) (simp_all add: split_beta)

lemma validate_apply_patch:
  "validate_patch p \<Longrightarrow> validate e \<Longrightarrow> validate (apply_patch now p e)"
  by (simp add: validate_def validate_patch_def apply_patch_def patched_def
      split: option.splits)

lemma stored_events_stay_valid:
  assumes "list_all validate store"
  shows "list_all validate (snd (joinEvent now newId store i a))"
    and "list_all validate (snd (leaveEvent now store i a))"
    and "list_all validate (snd (updateEvent now store i caller p))"
    and "list_all validate (snd (deleteEvent store rid caller))"
    and "list_all validate (snd (addSession now newId store i caller body))"
    and "list_all validate (snd (updateSession now store sid caller u))"
    and "list_all validate (snd (removeSession now store sid caller))"
proof -
  note s = list_all_validate_save[OF assms]
  show "list_all validate (snd (joinEvent now newId store i a))"
    using assms by (simp add: joinEvent_def Let_def s split: option.splits)
  show "list_all validate (snd (leaveEvent now store i a))"
    using assms by (simp add: leaveEvent_def Let_def s split: option.splits)
  show "list_all validate (snd (updateEvent now store i caller p))"
    using assms list_all_validate_update[OF assms, of "apply_patch now p" i]
    by (simp add: updateEvent_def split_beta validate_apply_patch split: option.splits)
  show "list_all validate (snd (deleteEvent store rid caller))"
  proof (cases rid)
    case NotObjectId
    then show ?thesis using assms by (simp add: deleteEvent_def)
  next
    case (ObjectId j)
    then show ?thesis
      using assms list_all_validate_delete[OF assms, of j]
      by (cases "findByIdAndDelete j store") (simp add: deleteEvent_def split: option.splits)
  qed
  show "list_all validate (snd (addSession now newId store i caller body))"
    using assms by (simp add: addSession_def Let_def s split: option.splits)
  show "list_all validate (snd (updateSession now store sid caller u))"
    using assms by (simp add: updateSession_def Let_def s split: option.splits)
  show "list_all validate (snd (removeSession now store sid caller))"
    using assms by (simp add: removeSession_def Let_def s split: option.splits)
qed

section \<open>Joining and leaving\<close>

lemma validate_filter_participants:
  "validate ev \<Longrightarrow> validate (ev\<lparr>participants := filter P (participants ev)\<rparr>)"
  by (simp add: validate_def list_all_iff)

lemma leaveEvent_found:
  assumes "findById store i = Some ev" and "validate ev"
  shows "leaveEvent now store i a =
     (Inr (length (filter (\<lambda>p. userId p \<noteq> auth_userId a) (participants ev))),
      save now (ev\<lparr>participants := filter (\<lambda>p. userId p \<noteq> auth_userId a) (participants ev)\<rparr>) store)"
  using assms(1) validate_filter_participants[OF assms(2)]
  by (simp add: leaveEvent_def Let_def)

lemma joinEvent_full_iff:
  assumes "findById store i = Some ev"
  shows "fst (joinEvent now newId store i a) = Inl EventFull \<longleftrightarrow>
         \<not> list_ex (\<lambda>p. userId p = auth_userId a) (participants ev) \<and>
         capacity ev \<le> of_nat (length (participants ev))"
  using assms by (simp add: joinEvent_def Let_def)

lemma joinEvent_full_store:
  "fst (joinEvent now newId store i a) = Inl EventFull \<Longrightarrow> snd (joinEvent now newId store i a) = store"
  by (simp add: joinEvent_def Let_def split: option.splits if_splits)

lemma joinEvent_ok:
  assumes "findById store i = Some ev" and "validate ev" and "auth_userId a \<noteq> []"
    and "\<not> list_ex (\<lambda>p. userId p = auth_userId a) (participants ev)"
    and "of_nat (length (participants ev)) < capacity ev"
  shows "joinEvent now newId store i a =
     (Inr (Suc (length (participants ev))),
      save now (ev\<lparr>participants := participants ev @
                   [\<lparr>p_id = newId, userId = auth_userId a,
                     userName = or_default (auth_name a) ''Anonymous'',
                     userEmail = or_default (auth_email a) [],
                     registeredAt = now\<rparr>]\<rparr>) store)"
proof -
  have "validate (ev\<lparr>participants := participants ev @
                   [\<lparr>p_id = newId, userId = auth_userId a,
                     userName = or_default (auth_name a) ''Anonymous'',
                     userEmail = or_default (auth_email a) [],
                     registeredAt = now\<rparr>]\<rparr>)"
    using assms(2,3) by (simp add: validate_def validate_participant_def)
  with assms(1,4,5) show ?thesis by (simp add: joinEvent_def Let_def)
qed

lemma fst_joinAll_Cons:
  "fst (joinAll now store i ((newId, a) # reqs)) =
     fst (joinEvent now newId store i a) #
     fst (joinAll now (snd (joinEvent now newId store i a)) i reqs)"
  by (simp split: prod.splits)

lemma joinAll_responses:
  assumes "findById store i = Some ev" and "validate ev" and "capacity ev = of_nat N"
    and "distinct (map (\<lambda>r. auth_userId (snd r)) reqs)"
    and "set (map (\<lambda>r. auth_userId (snd r)) reqs) \<inter> userId ` set (participants ev) = {}"
    and "list_all (\<lambda>r. auth_userId (snd r) \<noteq> []) reqs"
  shows "fst (joinAll now store i reqs) =
     map (\<lambda>k. if length (participants ev) + k < N
               then Inr (length (participants ev) + Suc k) else Inl EventFull)
       [0..<length reqs]"
  using assms
proof (induction reqs arbitrary: store ev)
  case Nil
  then show ?case by simp
next
  case (Cons req reqs)
  obtain newId a where req: "req = (newId, a)" by (cases req)
  let ?ps = "participants ev"
  have notin: "\<not> list_ex (\<lambda>p. userId p = auth_userId a) ?ps"
  proof
    assume "list_ex (\<lambda>p. userId p = auth_userId a) ?ps"
    then obtain p where "p \<in> set ?ps" and "userId p = auth_userId a"
      unfolding list_ex_iff by blast
    then have "auth_userId a \<in> userId ` set ?ps" by force
    moreover have "auth_userId a \<in> set (map (\<lambda>r. auth_userId (snd r)) (req # reqs))"
      using req by simp
    ultimately show False using Cons.prems(5) by blast
  qed
  have ne: "auth_userId a \<noteq> []" using Cons.prems(6) req by simp
  have dist: "distinct (map (\<lambda>r. auth_userId (snd r)) reqs)" using Cons.prems(4) by simp
  have all: "list_all (\<lambda>r. auth_userId (snd r) \<noteq> []) reqs" using Cons.prems(6) by simp
  show ?case
  proof (cases "length ?ps < N")
    case True
    let ?p = "\<lparr>p_id = newId, userId = auth_userId a,
                     userName = or_default (auth_name a) ''Anonymous'',
                     userEmail = or_default (auth_email a) [],
                     registeredAt = now\<rparr>"
    let ?ev' = "ev\<lparr>participants := ?ps @ [?p]\<rparr>"
    let ?ev'' = "?ev'\<lparr>updatedAt := now\<rparr>"
    have lt: "of_nat (length ?ps) < capacity ev" using True Cons.prems(3) by simp
    have j: "joinEvent now newId store i a = (Inr (Suc (length ?ps)), save now ?ev' store)"
      using Cons.prems(1,2) ne notin lt by (rule joinEvent_ok)
    have id: "e_id ?ev' = i" using findById_Some_id[OF Cons.prems(1)] by simp
    have f: "findById (save now ?ev' store) i = Some ?ev''"
      using findById_save_same[of store ?ev' ev now] Cons.prems(1) id by simp
    have v: "validate ?ev''"
      using Cons.prems(2) ne by (simp add: validate_def validate_participant_def)
    have c: "capacity ?ev'' = of_nat N" using Cons.prems(3) by simp
    have d: "set (map (\<lambda>r. auth_userId (snd r)) reqs) \<inter> userId ` set (participants ?ev'') = {}"
      using Cons.prems(4,5) req by auto
    have ih: "fst (joinAll now (save now ?ev' store) i reqs) =
       map (\<lambda>k. if length (participants ?ev'') + k < N
               then Inr (length (participants ?ev'') + Suc k) else Inl EventFull)
       [0..<length reqs]"
      using f v c dist d all by (rule Cons.IH)
    show ?thesis
      unfolding req fst_joinAll_Cons j fst_conv snd_conv ih
      using True by (simp add: map_upt_Suc del: upt_Suc)
  next
    case False
    then have ge: "capacity ev \<le> of_nat (length ?ps)" using Cons.prems(3) by simp
    have j1: "fst (joinEvent now newId store i a) = Inl EventFull"
      using joinEvent_full_iff[OF Cons.prems(1), of now newId a] notin ge by simp
    then have j2: "snd (joinEvent now newId store i a) = store" by (rule joinEvent_full_store)
    have d: "set (map (\<lambda>r. auth_userId (snd r)) reqs) \<inter> userId ` set ?ps = {}"
      using Cons.prems(5) by auto
    have ih: "fst (joinAll now store i reqs) =
       map (\<lambda>k. if length ?ps + k < N then Inr (length ?ps + Suc k) else Inl EventFull)
       [0..<length reqs]"
      using Cons.prems(1,2,3) dist d all by (rule Cons.IH)
    show ?thesis
      unfolding req fst_joinAll_Cons j1 j2 ih
      using False by (simp add: map_upt_Suc del: upt_Suc)
  qed
qed

section \<open>The organizer of a stored event\<close>









text \<open>
  Two bodies that the update refuses: a title of one no-break space (U+00A0), empty
  after the setter's trim, and an \<open>_id\<close> that is not the event's.
\<close>

lemma updateEvent_blank_title:
  "updateEvent 600 [ex_event] 1 ''org1'' (ex_no_patch\<lparr>pt_title := Some [CHR 0xC2, CHR 0xA0]\<rparr>) =
     (Inl ServerError, [ex_event])"
proof -
  have "trim [CHR 0xC2, CHR 0xA0] = []" by code_simp
  then show ?thesis
    by (simp add: updateEvent_def findOne_def validate_patch_def ex_event_def ex_no_patch_def)
qed

lemma updateEvent_other_id:
  "updateEvent 600 [ex_event] 1 ''org1'' (ex_no_patch\<lparr>pt_id := Some (ObjectId 2)\<rparr>) =
     (Inl ServerError, [ex_event])"
  by (simp add: updateEvent_def findOne_def validate_patch_def id_unchanged_def
      ex_event_def ex_no_patch_def)

section \<open>Sessions\<close>

lemma addSession_not_owner:
  "findById store i = Some ev \<Longrightarrow> organizerId ev \<noteq> caller \<Longrightarrow>
   addSession now newId store i caller body = (Inl NotAuthorized, store)"
  by (simp add: addSession_def)

lemma findOne_no_owner:
  "\<forall>e \<in> set store. has_session sid e \<longrightarrow> organizerId e \<noteq> caller \<Longrightarrow>
   findOne (\<lambda>e. has_session sid e \<and> organizerId e = caller) store = None"
  unfolding findOne_def find_None_iff by blast

lemma sessions_id_s_id: "sessions_id ev sid = Some s \<Longrightarrow> s_id s = sid"
  unfolding sessions_id_def by (rule find_Some_holds)

lemma assign_s_id: "assign s u = Some s' \<Longrightarrow> s_id s' = patched (sp_id u) (s_id s)"
  unfolding assign_def by (clarsimp split: if_splits)

lemma map_s_id_set_session:
  "s_id s' = sid \<Longrightarrow> map s_id (set_session sid s' ss) = map s_id ss"
  by (induction ss) simp_all

section \<open>Claims\<close>

text \<open>
  C1, as the handler has it. For a stored event, joining fails with \<open>Event is full\<close>
  exactly when the caller is not yet a participant and the number of participants is at
  least the capacity; the collection is then unchanged. The comparison has no special
  case for capacity 0. When distinct callers join an event that has no participants and
  capacity \<open>N\<close>, the \<open>k\<close>-th call (from 0) succeeds with the count \<open>k + 1\<close>
  while \<open>k < N\<close> and fails with \<open>Event is full\<close> from the \<open>N\<close>-th on: for
  \<open>N > 0\<close> the first \<open>N\<close> joins succeed and the next one is refused, and for
  \<open>N = 0\<close> every join is refused.
\<close>

theorem join_full_rule:
  assumes "findById store i = Some ev" and "validate ev"
  shows "(fst (joinEvent now newId store i a) = Inl EventFull \<longleftrightarrow>
            \<not> list_ex (\<lambda>p. userId p = auth_userId a) (participants ev) \<and>
            capacity ev \<le> of_nat (length (participants ev))) \<and>
         (fst (joinEvent now newId store i a) = Inl EventFull \<longrightarrow>
            snd (joinEvent now newId store i a) = store) \<and>
         (participants ev = [] \<and> capacity ev = of_nat N \<and>
          distinct (map (\<lambda>r. auth_userId (snd r)) reqs) \<and>
          list_all (\<lambda>r. auth_userId (snd r) \<noteq> []) reqs \<longrightarrow>
            fst (joinAll now store i reqs) =
              map (\<lambda>k. if k < N then Inr (Suc k) else Inl EventFull) [0..<length reqs])"
proof (intro conjI impI)
  show "fst (joinEvent now newId store i a) = Inl EventFull \<longleftrightarrow>
            \<not> list_ex (\<lambda>p. userId p = auth_userId a) (participants ev) \<and>
            capacity ev \<le> of_nat (length (participants ev))"
    using assms(1) by (rule joinEvent_full_iff)
  show "snd (joinEvent now newId store i a) = store"
    if "fst (joinEvent now newId store i a) = Inl EventFull"
    using that by (rule joinEvent_full_store)
  show "fst (joinAll now store i reqs) =
              map (\<lambda>k. if k < N then Inr (Suc k) else Inl EventFull) [0..<length reqs]"
    if h: "participants ev = [] \<and> capacity ev = of_nat N \<and>
          distinct (map (\<lambda>r. auth_userId (snd r)) reqs) \<and>
          list_all (\<lambda>r. auth_userId (snd r) \<noteq> []) reqs"
  proof -
    have d: "set (map (\<lambda>r. auth_userId (snd r)) reqs) \<inter> userId ` set (participants ev) = {}"
      using h by simp
    from joinAll_responses[OF assms(1,2), of N reqs now] h d show ?thesis by simp
  qed
qed

text \<open>
  The claim as the specification words it (capacity 0 is unbounded, so that a join
  never fails with \<open>Event is full\<close>) fails on the event that has the default capacity
  and no participant.
\<close>

theorem join_full_rule_counterexample:
  "capacity ex_event = 0 \<and> participants ex_event = [] \<and>
   joinEvent 600 9 [ex_event] 1 (ex_user ''userA'') = (Inl EventFull, [ex_event])"
  by (simp add: joinEvent_def findById_def ex_event_def ex_user_def)

theorem join_full_rule_witness:
  "findById [ex_event\<lparr>capacity := 2\<rparr>] 1 = Some (ex_event\<lparr>capacity := 2\<rparr>) \<and>
   validate (ex_event\<lparr>capacity := 2\<rparr>) \<and>
   fst (joinAll 600 [ex_event\<lparr>capacity := 2\<rparr>] 1
          [(10, ex_user ''userA''), (11, ex_user ''userB''), (12, ex_user ''userC'')]) =
     [Inr 1, Inr 2, Inl EventFull]"
proof -
  let ?ev = "ex_event\<lparr>capacity := 2\<rparr>"
  let ?reqs = "[(10::nat, ex_user ''userA''), (11, ex_user ''userB''), (12, ex_user ''userC'')]"
  have h1: "findById [?ev] 1 = Some ?ev" by (simp add: findById_def ex_event_def)
  have h2: "validate ?ev" by (simp add: validate_def ex_event_def)
  have h3: "participants ?ev = [] \<and> capacity ?ev = of_nat 2 \<and>
          distinct (map (\<lambda>r. auth_userId (snd r)) ?reqs) \<and>
          list_all (\<lambda>r. auth_userId (snd r) \<noteq> []) ?reqs"
    by (simp add: ex_event_def ex_user_def)
  have u: "[0..<length ?reqs] = [0, 1, 2]" by (simp add: upt_rec)
  from join_full_rule[OF h1 h2, of 600 9 "ex_user ''userA''" 2 ?reqs] h3
  have "fst (joinAll 600 [?ev] 1 ?reqs) =
      map (\<lambda>k. if k < 2 then Inr (Suc k) else Inl EventFull) [0..<length ?reqs]"
    by blast
  then have "fst (joinAll 600 [?ev] 1 ?reqs) = [Inr 1, Inr 2, Inl EventFull]"
    unfolding u by simp
  with h1 h2 show ?thesis by (intro conjI)
qed




text \<open>
  C3. \<open>PUT /api/sessions/:id\<close> does not compare the merged times: the organizer's
  update that moves \<open>endTime\<close> before \<open>startTime\<close> is answered with the merged
  session and is stored.
\<close>

theorem updateSession_end_before_start:
  "updateSession 600 [ex_event\<lparr>sessions := [ex_session]\<rparr>] 7 ''org1''
     (ex_no_update\<lparr>sp_endTime := Some (Some 500)\<rparr>) =
   (Inr (ex_session\<lparr>endTime := 500\<rparr>),
    [ex_event\<lparr>sessions := [ex_session\<lparr>endTime := 500\<rparr>], updatedAt := 600\<rparr>]) \<and>
   startTime ex_session = 1000 \<and>
   endTime (ex_session\<lparr>endTime := 500\<rparr>) < startTime (ex_session\<lparr>endTime := 500\<rparr>)"
  by (simp add: updateSession_def findOne_def has_session_def sessions_id_def assign_def
      patched_def validate_def validate_session_def Let_def
      ex_event_def ex_session_def ex_no_update_def)

text \<open>
  C4, as the handlers have it. A caller who is not the organizer of the event cannot add
  a session: the answer is \<open>Not authorized to modify this event\<close> (403). When no event
  that holds the session is organized by the caller, updating and removing the session
  are answered with \<open>Session not found or not authorized\<close> (404), the answer for an
  unknown session as well. In all three cases the collection is unchanged.
\<close>

theorem non_organizer_rejected:
  "(findById store i = Some ev \<and> organizerId ev \<noteq> caller \<longrightarrow>
      addSession now newId store i caller body = (Inl NotAuthorized, store)) \<and>
   ((\<forall>e \<in> set store. has_session sid e \<longrightarrow> organizerId e \<noteq> caller) \<longrightarrow>
      updateSession now store sid caller u = (Inl SessionNotFoundOrNotAuthorized, store) \<and>
      removeSession now store sid caller = (Inl SessionNotFoundOrNotAuthorized, store)) \<and>
   status NotAuthorized = 403 \<and> status SessionNotFoundOrNotAuthorized = 404"
proof (intro conjI impI)
  show "addSession now newId store i caller body = (Inl NotAuthorized, store)"
    if "findById store i = Some ev \<and> organizerId ev \<noteq> caller"
    using that by (simp add: addSession_not_owner)
next
  assume h: "\<forall>e \<in> set store. has_session sid e \<longrightarrow> organizerId e \<noteq> caller"
  show "updateSession now store sid caller u = (Inl SessionNotFoundOrNotAuthorized, store)"
    using findOne_no_owner[OF h] by (simp add: updateSession_def)
  show "removeSession now store sid caller = (Inl SessionNotFoundOrNotAuthorized, store)"
    using findOne_no_owner[OF h] by (simp add: removeSession_def)
qed simp_all

text \<open>
  For the update and the removal of a session by a caller who is not the organizer, the
  answer is not the 403 of \<open>NotAuthorized\<close> but a 404.
\<close>

theorem non_organizer_rejected_counterexample:
  "findById [ex_event\<lparr>sessions := [ex_session]\<rparr>] 1 = Some (ex_event\<lparr>sessions := [ex_session]\<rparr>) \<and>
   has_session 7 (ex_event\<lparr>sessions := [ex_session]\<rparr>) \<and>
   organizerId (ex_event\<lparr>sessions := [ex_session]\<rparr>) \<noteq> ''userA'' \<and>
   fst (updateSession 600 [ex_event\<lparr>sessions := [ex_session]\<rparr>] 7 ''userA'' ex_no_update) \<noteq>
     Inl NotAuthorized \<and>
   fst (removeSession 600 [ex_event\<lparr>sessions := [ex_session]\<rparr>] 7 ''userA'') \<noteq>
     Inl NotAuthorized \<and>
   map_sum status id (fst (updateSession 600 [ex_event\<lparr>sessions := [ex_session]\<rparr>] 7 ''userA'' ex_no_update)) =
     Inl 404 \<and>
   map_sum status id (fst (removeSession 600 [ex_event\<lparr>sessions := [ex_session]\<rparr>] 7 ''userA'')) =
     Inl 404"
  by (simp add: updateSession_def removeSession_def findOne_def findById_def has_session_def
      ex_event_def ex_session_def)

theorem non_organizer_rejected_witness:
  "findById [ex_event\<lparr>sessions := [ex_session]\<rparr>] 1 = Some (ex_event\<lparr>sessions := [ex_session]\<rparr>) \<and>
   organizerId (ex_event\<lparr>sessions := [ex_session]\<rparr>) \<noteq> ''userA'' \<and>
   addSession 600 9 [ex_event\<lparr>sessions := [ex_session]\<rparr>] 1 ''userA'' ex_body =
     (Inl NotAuthorized, [ex_event\<lparr>sessions := [ex_session]\<rparr>]) \<and>
   updateSession 600 [ex_event\<lparr>sessions := [ex_session]\<rparr>] 7 ''userA'' ex_no_update =
     (Inl SessionNotFoundOrNotAuthorized, [ex_event\<lparr>sessions := [ex_session]\<rparr>]) \<and>
   removeSession 600 [ex_event\<lparr>sessions := [ex_session]\<rparr>] 7 ''userA'' =
     (Inl SessionNotFoundOrNotAuthorized, [ex_event\<lparr>sessions := [ex_session]\<rparr>])"
proof -
  let ?ev = "ex_event\<lparr>sessions := [ex_session]\<rparr>"
  have h1: "findById [?ev] 1 = Some ?ev" by (simp add: findById_def ex_event_def)
  have h2: "organizerId ?ev \<noteq> ''userA''" by (simp add: ex_event_def)
  have h3: "\<forall>e \<in> set [?ev]. has_session 7 e \<longrightarrow> organizerId e \<noteq> ''userA''"
    by (simp add: ex_event_def)
  from non_organizer_rejected[of "[?ev]" 1 ?ev "''userA''" 600 9 ex_body 7 ex_no_update] h1 h2 h3
  have "addSession 600 9 [?ev] 1 ''userA'' ex_body = (Inl NotAuthorized, [?ev]) \<and>
   updateSession 600 [?ev] 7 ''userA'' ex_no_update = (Inl SessionNotFoundOrNotAuthorized, [?ev]) \<and>
   removeSession 600 [?ev] 7 ''userA'' = (Inl SessionNotFoundOrNotAuthorized, [?ev])"
    by blast
  with h1 h2 show ?thesis by (intro conjI) simp_all
qed

text \<open>
  C5, as the handler has it. \<open>DELETE /api/events/:id\<close> never looks at the caller: for
  any two caller identities the result is the same. It answers \<open>Event not found\<close>
  (404) exactly when the route parameter is an ObjectId that no stored event has. A
  parameter that is not an ObjectId is answered with the generic failure (500), the
  collection unchanged. When a stored event has the identifier, the handler reports
  success and the collection loses that one document, with the sessions and
  participants embedded in it, so that the collection is one document shorter and
  (identifiers being unique) the identifier no longer resolves.
\<close>

theorem deleteEvent_any_caller:
  "deleteEvent store rid caller = deleteEvent store rid caller' \<and>
   (fst (deleteEvent store rid caller) = Inl EventNotFound \<longleftrightarrow>
      (\<exists>j. rid = ObjectId j \<and> findById store j = None)) \<and>
   deleteEvent store NotObjectId caller = (Inl ServerError, store) \<and>
   (findById store i = None \<longrightarrow>
      deleteEvent store (ObjectId i) caller = (Inl EventNotFound, store)) \<and>
   (\<forall>ev. findById store i = Some ev \<longrightarrow>
      deleteEvent store (ObjectId i) caller = (Inr (), remove1 ev store) \<and>
      length (snd (deleteEvent store (ObjectId i) caller)) + 1 = length store \<and>
      (distinct (map e_id store) \<longrightarrow>
         findById (snd (deleteEvent store (ObjectId i) caller)) i = None))"
proof (intro conjI allI impI)
  show "deleteEvent store rid caller = deleteEvent store rid caller'"
    by (simp add: deleteEvent_def)
  show "fst (deleteEvent store rid caller) = Inl EventNotFound \<longleftrightarrow>
      (\<exists>j. rid = ObjectId j \<and> findById store j = None)"
  proof (cases rid)
    case NotObjectId
    then show ?thesis by (simp add: deleteEvent_def)
  next
    case (ObjectId j)
    show ?thesis
    proof (cases "findById store j")
      case None
      with ObjectId show ?thesis by (simp add: deleteEvent_None)
    next
      case (Some ev)
      with ObjectId show ?thesis by (simp add: deleteEvent_Some)
    qed
  qed
  show "deleteEvent store NotObjectId caller = (Inl ServerError, store)"
    by (simp add: deleteEvent_def)
  show "deleteEvent store (ObjectId i) caller = (Inl EventNotFound, store)"
    if "findById store i = None"
    using that by (rule deleteEvent_None)
next
  fix ev assume f: "findById store i = Some ev"
  show "deleteEvent store (ObjectId i) caller = (Inr (), remove1 ev store)"
    using f by (rule deleteEvent_Some)
  show "length (snd (deleteEvent store (ObjectId i) caller)) + 1 = length store"
    using length_remove1_found[OF f] by (simp only: deleteEvent_Some[OF f] snd_conv)
  show "findById (snd (deleteEvent store (ObjectId i) caller)) i = None"
    if "distinct (map e_id store)"
    using findById_remove1[OF that f] by (simp only: deleteEvent_Some[OF f] snd_conv)
qed

text \<open>
  \<open>DELETE /api/events/abc\<close>: the parameter resolves to no event, and the answer is not
  \<open>Event not found\<close> but the generic failure.
\<close>

theorem deleteEvent_any_caller_counterexample:
  "deleteEvent [ex_event] NotObjectId ''org1'' = (Inl ServerError, [ex_event]) \<and>
   fst (deleteEvent [ex_event] NotObjectId ''org1'') \<noteq> Inl EventNotFound \<and>
   status ServerError = 500"
  by (simp add: deleteEvent_def)

theorem deleteEvent_any_caller_witness:
  "findById [ex_event] 1 = Some ex_event \<and> organizerId ex_event \<noteq> ''userA'' \<and>
   deleteEvent [ex_event] (ObjectId 1) ''userA'' = (Inr (), []) \<and>
   deleteEvent [ex_event] (ObjectId 2) ''org1'' = (Inl EventNotFound, [ex_event])"
proof -
  have h1: "findById [ex_event] 1 = Some ex_event"
    by (simp add: findById_def ex_event_def)
  have h2: "findById [ex_event] 2 = None"
    by (simp add: findById_def ex_event_def)
  have h3: "organizerId ex_event \<noteq> ''userA''"
    by (simp add: ex_event_def)
  from deleteEvent_any_caller[of "[ex_event]" "ObjectId 1" "''userA''" "''userA''" 1] h1
  have a: "deleteEvent [ex_event] (ObjectId 1) ''userA'' = (Inr (), [])" by simp
  from deleteEvent_any_caller[of "[ex_event]" "ObjectId 2" "''org1''" "''org1''" 2] h2
  have b: "deleteEvent [ex_event] (ObjectId 2) ''org1'' = (Inl EventNotFound, [ex_event])" by simp
  from h1 h3 a b show ?thesis by (intro conjI)
qed

text \<open>
  C6. When the event already has a participant with the caller's \<open>userId\<close>, joining
  is rejected with \<open>Already joined this event\<close> (status 400) and the collection, hence
  the participant list and its length, is left as it was.
\<close>

theorem join_already_member:
  assumes "findById store i = Some ev"
    and "\<exists>p \<in> set (participants ev). userId p = auth_userId a"
  shows "joinEvent now newId store i a = (Inl AlreadyJoined, store) \<and> status AlreadyJoined = 400"
proof -
  from assms(2) have "list_ex (\<lambda>p. userId p = auth_userId a) (participants ev)"
    by (simp add: list_ex_iff)
  with assms(1) show ?thesis by (simp add: joinEvent_def)
qed

theorem join_already_member_witness:
  "findById [ex_event\<lparr>capacity := 5, participants := [ex_participant]\<rparr>] 1 =
     Some (ex_event\<lparr>capacity := 5, participants := [ex_participant]\<rparr>) \<and>
   joinEvent 600 9 [ex_event\<lparr>capacity := 5, participants := [ex_participant]\<rparr>] 1 (ex_user ''userA'') =
     (Inl AlreadyJoined, [ex_event\<lparr>capacity := 5, participants := [ex_participant]\<rparr>])"
proof -
  let ?ev = "ex_event\<lparr>capacity := 5, participants := [ex_participant]\<rparr>"
  have h1: "findById [?ev] 1 = Some ?ev"
    by (simp add: findById_def ex_event_def)
  have h2: "\<exists>p \<in> set (participants ?ev). userId p = auth_userId (ex_user ''userA'')"
    by (simp add: ex_participant_def ex_user_def)
  from join_already_member[OF h1 h2, of 600 9] h1 show ?thesis by simp
qed

text \<open>
  C7. Leaving a stored (schema-valid) event succeeds for every caller: the response is
  the number of participants whose \<open>userId\<close> differs from the caller's, the stored
  event keeps exactly those participants, none of which has the caller's \<open>userId\<close>,
  and \<open>updatedAt\<close> is set. When no participant matches the caller, the response is
  the unchanged count and the participants are unchanged.
\<close>

theorem leave_always_succeeds:
  assumes "findById store i = Some ev" and "validate ev"
  shows "fst (leaveEvent now store i a) =
           Inr (length (filter (\<lambda>p. userId p \<noteq> auth_userId a) (participants ev))) \<and>
         findById (snd (leaveEvent now store i a)) i =
           Some (ev\<lparr>participants := filter (\<lambda>p. userId p \<noteq> auth_userId a) (participants ev),
                    updatedAt := now\<rparr>) \<and>
         \<not> list_ex (\<lambda>p. userId p = auth_userId a)
             (filter (\<lambda>p. userId p \<noteq> auth_userId a) (participants ev)) \<and>
         (\<not> list_ex (\<lambda>p. userId p = auth_userId a) (participants ev) \<longrightarrow>
            fst (leaveEvent now store i a) = Inr (length (participants ev)) \<and>
            findById (snd (leaveEvent now store i a)) i = Some (ev\<lparr>updatedAt := now\<rparr>))"
proof -
  let ?ps = "filter (\<lambda>p. userId p \<noteq> auth_userId a) (participants ev)"
  let ?ev' = "ev\<lparr>participants := ?ps\<rparr>"
  have id: "e_id ?ev' = i" using findById_Some_id[OF assms(1)] by simp
  have l: "leaveEvent now store i a = (Inr (length ?ps), save now ?ev' store)"
    using assms by (rule leaveEvent_found)
  have f: "findById (save now ?ev' store) i = Some (?ev'\<lparr>updatedAt := now\<rparr>)"
    using findById_save_same[of store ?ev' ev now] assms(1) id by simp
  have n: "\<not> list_ex (\<lambda>p. userId p = auth_userId a) ?ps"
    by (simp add: list_ex_iff)
  have u: "?ps = participants ev" if "\<not> list_ex (\<lambda>p. userId p = auth_userId a) (participants ev)"
    using that by (simp add: list_ex_iff filter_id_conv)
  have c1: "fst (leaveEvent now store i a) = Inr (length ?ps)" using l by simp
  have c2: "findById (snd (leaveEvent now store i a)) i = Some (?ev'\<lparr>updatedAt := now\<rparr>)"
    using l f by simp
  have c4: "\<not> list_ex (\<lambda>p. userId p = auth_userId a) (participants ev) \<longrightarrow>
            fst (leaveEvent now store i a) = Inr (length (participants ev)) \<and>
            findById (snd (leaveEvent now store i a)) i = Some (ev\<lparr>updatedAt := now\<rparr>)"
  proof
    assume h: "\<not> list_ex (\<lambda>p. userId p = auth_userId a) (participants ev)"
    have "?ev' = ev" using u[OF h] by simp
    with c1 c2 u[OF h] show "fst (leaveEvent now store i a) = Inr (length (participants ev)) \<and>
            findById (snd (leaveEvent now store i a)) i = Some (ev\<lparr>updatedAt := now\<rparr>)"
      by simp
  qed
  from c1 c2 n c4 show ?thesis by (intro conjI)
qed

theorem leave_always_succeeds_witness:
  "findById [ex_event] 1 = Some ex_event \<and> validate ex_event \<and>
   fst (leaveEvent 600 [ex_event] 1 (ex_user ''userA'')) = Inr 0 \<and>
   findById (snd (leaveEvent 600 [ex_event] 1 (ex_user ''userA''))) 1 =
     Some (ex_event\<lparr>updatedAt := 600\<rparr>)"
proof -
  have h1: "findById [ex_event] 1 = Some ex_event"
    by (simp add: findById_def ex_event_def)
  have h2: "validate ex_event"
    by (simp add: validate_def ex_event_def)
  have h3: "\<not> list_ex (\<lambda>p. userId p = auth_userId (ex_user ''userA'')) (participants ex_event)"
    by (simp add: ex_event_def)
  have h4: "participants ex_event = []" by (simp add: ex_event_def)
  from leave_always_succeeds[OF h1 h2, of 600 "ex_user ''userA''"] h3 h4
  have "fst (leaveEvent 600 [ex_event] 1 (ex_user ''userA'')) = Inr 0 \<and>
   findById (snd (leaveEvent 600 [ex_event] 1 (ex_user ''userA''))) 1 =
     Some (ex_event\<lparr>updatedAt := 600\<rparr>)" by simp
  with h1 h2 show ?thesis by (intro conjI) simp_all
qed

text \<open>
  C8, as the handler has it. When the update of a session succeeds, the identifier of the
  merged session, which is the one stored and returned, is the body's \<open>_id\<close> when the
  body has one and the session's own identifier otherwise: only \<open>eventId\<close> is taken
  out of the body before \<open>Object.assign\<close>. Without an \<open>_id\<close> in the body the
  identifiers of the event's sessions are unchanged.
\<close>

theorem updateSession_identifier:
  assumes "fst (updateSession now store sid caller u) = Inr s'"
  shows "s_id s' = patched (sp_id u) sid \<and>
         (\<exists>ev. findOne (\<lambda>e. has_session sid e \<and> organizerId e = caller) store = Some ev \<and>
            snd (updateSession now store sid caller u) =
              save now (ev\<lparr>sessions := set_session sid s' (sessions ev)\<rparr>) store \<and>
            (sp_id u = None \<longrightarrow>
               map s_id (set_session sid s' (sessions ev)) = map s_id (sessions ev)))"
proof (cases "findOne (\<lambda>e. has_session sid e \<and> organizerId e = caller) store")
  case None
  with assms show ?thesis by (simp add: updateSession_def)
next
  case (Some ev)
  show ?thesis
  proof (cases "sessions_id ev sid")
    case None
    with Some assms show ?thesis by (simp add: updateSession_def)
  next
    case s: (Some s)
    show ?thesis
    proof (cases "assign s u")
      case None
      with Some s assms show ?thesis by (simp add: updateSession_def)
    next
      case a: (Some s'')
      from Some s a assms have eq: "s'' = s'"
        by (simp add: updateSession_def Let_def split: if_splits)
      from Some s a assms have st: "snd (updateSession now store sid caller u) =
              save now (ev\<lparr>sessions := set_session sid s'' (sessions ev)\<rparr>) store"
        by (simp add: updateSession_def Let_def split: if_splits)
      have i: "s_id s' = patched (sp_id u) sid"
        using assign_s_id[OF a] sessions_id_s_id[OF s] eq by simp
      have m: "map s_id (set_session sid s' (sessions ev)) = map s_id (sessions ev)"
        if "sp_id u = None"
        using that i by (intro map_s_id_set_session) (simp add: patched_def)
      have "findOne (\<lambda>e. has_session sid e \<and> organizerId e = caller) store = Some ev \<and>
            snd (updateSession now store sid caller u) =
              save now (ev\<lparr>sessions := set_session sid s' (sessions ev)\<rparr>) store \<and>
            (sp_id u = None \<longrightarrow>
               map s_id (set_session sid s' (sessions ev)) = map s_id (sessions ev))"
        using Some st m unfolding eq by (intro conjI impI)
      then have "\<exists>ev. findOne (\<lambda>e. has_session sid e \<and> organizerId e = caller) store = Some ev \<and>
            snd (updateSession now store sid caller u) =
              save now (ev\<lparr>sessions := set_session sid s' (sessions ev)\<rparr>) store \<and>
            (sp_id u = None \<longrightarrow>
               map s_id (set_session sid s' (sessions ev)) = map s_id (sessions ev))"
        by (rule exI)
      with i show ?thesis by (rule conjI)
    qed
  qed
qed

text \<open>
  An \<open>_id\<close> in the body replaces the identifier of the session.
\<close>

theorem updateSession_identifier_counterexample:
  "updateSession 600 [ex_event\<lparr>sessions := [ex_session]\<rparr>] 7 ''org1''
     (ex_no_update\<lparr>sp_id := Some 8\<rparr>) =
   (Inr (ex_session\<lparr>s_id := 8\<rparr>),
    [ex_event\<lparr>sessions := [ex_session\<lparr>s_id := 8\<rparr>], updatedAt := 600\<rparr>]) \<and>
   s_id ex_session = 7 \<and> s_id (ex_session\<lparr>s_id := 8\<rparr>) \<noteq> s_id ex_session"
  by (simp add: updateSession_def findOne_def has_session_def sessions_id_def assign_def
      patched_def validate_def validate_session_def Let_def
      ex_event_def ex_session_def ex_no_update_def)

theorem updateSession_identifier_witness:
  "fst (updateSession 600 [ex_event\<lparr>sessions := [ex_session]\<rparr>] 7 ''org1''
     (ex_no_update\<lparr>sp_title := Some ''Opening''\<rparr>)) = Inr (ex_session\<lparr>s_title := ''Opening''\<rparr>) \<and>
   s_id (ex_session\<lparr>s_title := ''Opening''\<rparr>) = 7"
proof -
  have h: "fst (updateSession 600 [ex_event\<lparr>sessions := [ex_session]\<rparr>] 7 ''org1''
     (ex_no_update\<lparr>sp_title := Some ''Opening''\<rparr>)) = Inr (ex_session\<lparr>s_title := ''Opening''\<rparr>)"
    by (simp add: updateSession_def findOne_def has_session_def sessions_id_def assign_def
      patched_def validate_def validate_session_def Let_def
      ex_event_def ex_session_def ex_no_update_def)
  have "s_id (ex_session\<lparr>s_title := ''Opening''\<rparr>) =
        patched (sp_id (ex_no_update\<lparr>sp_title := Some ''Opening''\<rparr>)) 7"
    using updateSession_identifier[OF h] by (rule conjunct1)
  then have "s_id (ex_session\<lparr>s_title := ''Opening''\<rparr>) = 7"
    by (simp add: patched_def ex_no_update_def)
  with h show ?thesis by (intro conjI)
qed

text \<open>
  C9. \<open>POST /api/events/:eventId/sessions\<close> does not apply the session rules of the
  creation payload: the organizer's session whose \<open>endTime\<close> is before its
  \<open>startTime\<close> is appended and returned with status 201, and a body with no title is
  answered with the generic failure (500), the collection unchanged.
\<close>

theorem addSession_end_before_start:
  "addSession 600 9 [ex_event] 1 ''org1'' ex_body =
   (Inr (ex_body\<lparr>sf_tags := Some []\<rparr>),
    [ex_event\<lparr>sessions :=
       [\<lparr>s_id = 9, s_title = ''Workshop'', s_description = None, startTime = 2000,
         endTime = 1000, speaker = ''TBD'', room = ''TBD'', s_tags = []\<rparr>],
       updatedAt := 600\<rparr>]) \<and>
   sf_endTime ex_body = Some 1000 \<and> sf_startTime ex_body = Some 2000 \<and>
   addSession 600 9 [ex_event] 1 ''org1'' (ex_body\<lparr>sf_title := None\<rparr>) =
     (Inl ServerError, [ex_event]) \<and>
   status ServerError = 500"
  by (simp add: addSession_def findById_def newSession_def push_session_def patched_def
      validate_def validate_session_def Let_def ex_event_def ex_body_def)

text \<open>
  C10. The public listing has at most 20 events: its length is the smaller of 20 and the
  number of public events that the caller does not organize, so it is exactly 20 when
  more than 20 match. It is the beginning of an arrangement of exactly the matching
  events (each as often as the collection has it) by \<open>createdAt\<close>, newest first: the
  listing followed by the events that the limit cuts off is such an arrangement. So
  every listed event is a matching event of the collection, the listing is ordered
  newest first, and no event cut off by the limit is newer than a listed one.
\<close>

theorem listPublicEvents_capped:
  "length (listPublicEvents store caller) =
     min 20 (length (filter (\<lambda>e. isPublic e \<and> organizerId e \<noteq> caller) store)) \<and>
   (20 < length (filter (\<lambda>e. isPublic e \<and> organizerId e \<noteq> caller) store) \<longrightarrow>
      length (listPublicEvents store caller) = 20) \<and>
   (\<exists>rest.
      mset (listPublicEvents store caller @ rest) =
        mset (filter (\<lambda>e. isPublic e \<and> organizerId e \<noteq> caller) store) \<and>
      sorted (map (\<lambda>e. - createdAt e) (listPublicEvents store caller @ rest))) \<and>
   (\<forall>e \<in> set (listPublicEvents store caller). e \<in> set store \<and> isPublic e \<and> organizerId e \<noteq> caller) \<and>
   sorted (map (\<lambda>e. - createdAt e) (listPublicEvents store caller)) \<and>
   (\<forall>e \<in> set (listPublicEvents store caller).
      \<forall>e' \<in> set (drop 20 (sort_key (\<lambda>e. - createdAt e)
                 (filter (\<lambda>e. isPublic e \<and> organizerId e \<noteq> caller) store))).
        createdAt e' \<le> createdAt e)"
proof -
  let ?m = "filter (\<lambda>e. isPublic e \<and> organizerId e \<noteq> caller) store"
  let ?s = "sort_key (\<lambda>e. - createdAt e) ?m"
  have l: "length (listPublicEvents store caller) = min 20 (length ?m)"
    by (simp add: listPublicEvents_def min_def)
  have m: "\<forall>e \<in> set (listPublicEvents store caller). e \<in> set store \<and> isPublic e \<and> organizerId e \<noteq> caller"
  proof
    fix e assume "e \<in> set (listPublicEvents store caller)"
    then have "e \<in> set ?s" unfolding listPublicEvents_def by (rule in_set_takeD)
    then show "e \<in> set store \<and> isPublic e \<and> organizerId e \<noteq> caller" by simp
  qed
  have srt: "sorted (map (\<lambda>e. - createdAt e) ?s)" by (rule sorted_sort_key)
  have s: "sorted (map (\<lambda>e. - createdAt e) (listPublicEvents store caller))"
    unfolding listPublicEvents_def take_map[symmetric] using srt by (rule sorted_wrt_take)
  have o: "createdAt e' \<le> createdAt e"
    if "e \<in> set (listPublicEvents store caller)" "e' \<in> set (drop 20 ?s)" for e e'
    using sorted_take_drop_le[OF srt, of e 20 e'] that by (simp add: listPublicEvents_def)
  have c: "20 < length ?m \<longrightarrow> length (listPublicEvents store caller) = 20"
    using l by simp
  have o': "\<forall>e \<in> set (listPublicEvents store caller). \<forall>e' \<in> set (drop 20 ?s). createdAt e' \<le> createdAt e"
    using o by blast
  have app: "listPublicEvents store caller @ drop 20 ?s = ?s"
    unfolding listPublicEvents_def by (rule append_take_drop_id)
  have "mset (listPublicEvents store caller @ drop 20 ?s) = mset ?m \<and>
        sorted (map (\<lambda>e. - createdAt e) (listPublicEvents store caller @ drop 20 ?s))"
    unfolding app using srt by simp
  then have r: "\<exists>rest. mset (listPublicEvents store caller @ rest) = mset ?m \<and>
        sorted (map (\<lambda>e. - createdAt e) (listPublicEvents store caller @ rest))"
    by (rule exI)
  from l c r m s o' show ?thesis by (intro conjI)
qed

theorem listPublicEvents_capped_witness:
  "20 < length (filter (\<lambda>e. isPublic e \<and> organizerId e \<noteq> ''userA'') (map ex_public [0..<21])) \<and>
   length (listPublicEvents (map ex_public [0..<21]) ''userA'') = 20 \<and>
   map e_id (listPublicEvents (map ex_public [0..<3]) ''userA'') = [2, 1, 0]"
proof -
  have p: "filter (\<lambda>e. isPublic e \<and> organizerId e \<noteq> ''userA'') (map ex_public [0..<21]) =
           map ex_public [0..<21]"
    by (simp add: filter_map o_def ex_public_def ex_event_def)
  then have h: "20 < length (filter (\<lambda>e. isPublic e \<and> organizerId e \<noteq> ''userA'') (map ex_public [0..<21]))"
    by simp
  from listPublicEvents_capped[of "map ex_public [0..<21]" "''userA''"] h
  have a: "length (listPublicEvents (map ex_public [0..<21]) ''userA'') = 20" by blast
  have u: "[0..<3] = [0, 1, 2]" by (simp add: upt_rec)
  have b: "map e_id (listPublicEvents (map ex_public [0..<3]) ''userA'') = [2, 1, 0]"
    unfolding u by (simp add: listPublicEvents_def ex_public_def ex_event_def)
  from h a b show ?thesis by (intro conjI)
qed

end
